theory Spec2Isabelle
  imports Main "HOL-Library.Sublist"
begin

section \<open>Strings of the host language\<close>

text \<open>
  Text is modelled as \<^typ>\<open>string\<close>, one \<^typ>\<open>char\<close> per character, which covers
  ASCII text. \<open>toLowerCase\<close> maps the letters \<open>A\<close> .. \<open>Z\<close> to \<open>a\<close> .. \<open>z\<close> and leaves
  every other character alone; \<open>str_includes s t\<close> is \<open>s.includes(t)\<close>, the test that
  \<open>t\<close> occurs in \<open>s\<close> as a contiguous run of characters.
\<close>

definition lower_char :: "char \<Rightarrow> char" where
  "lower_char c =
     (let n = (of_char c :: nat) in if 65 \<le> n \<and> n \<le> 90 then char_of (n + 32) else c)"

definition toLowerCase :: "string \<Rightarrow> string" where
  "toLowerCase s = map lower_char s"

definition str_includes :: "string \<Rightarrow> string \<Rightarrow> bool" where
  "str_includes s t = sublist t s"

text \<open>An absent value (\<open>undefined\<close>, \<open>null\<close>) is \<open>None\<close>; \<open>!x\<close> holds of it and of \<open>''''\<close>.\<close>

definition falsy_str :: "string option \<Rightarrow> bool" where
  "falsy_str x = (case x of None \<Rightarrow> True | Some s \<Rightarrow> s = [])"

section \<open>The success vocabulary and the text classifiers\<close>

definition SUCCESS_INDICATORS :: "string list" where
  "SUCCESS_INDICATORS =
     [''thank'', ''success'', ''confirm'', ''complete'', ''booked'', ''scheduled'',
      ''appointment-confirmed'']"

definition isSuccessUrl :: "string option \<Rightarrow> bool" where
  "isSuccessUrl url =
     (case url of
        None \<Rightarrow> False
      | Some u \<Rightarrow>
          if u = [] then False
          else let urlLower = toLowerCase u
               in list_ex (\<lambda>indicator. str_includes urlLower indicator) SUCCESS_INDICATORS)"

definition containsSuccessIndicator :: "string option \<Rightarrow> bool" where
  "containsSuccessIndicator text =
     (case text of
        None \<Rightarrow> False
      | Some t \<Rightarrow>
          if t = [] then False
          else let textLower = toLowerCase t
               in list_ex (\<lambda>indicator. str_includes textLower indicator) SUCCESS_INDICATORS)"

text \<open>
  The reading of "occurs as a case-insensitive substring": at some position of the
  input there is a run of characters, as long as the token, that equals the token once
  the case of the letters is ignored.
\<close>

definition eq_ignoring_case :: "string \<Rightarrow> string \<Rightarrow> bool" where
  "eq_ignoring_case a b = (toLowerCase a = toLowerCase b)"

definition occurs_ignoring_case :: "string \<Rightarrow> string \<Rightarrow> bool" where
  "occurs_ignoring_case tok s =
     list_ex (\<lambda>i. eq_ignoring_case (take (length tok) (drop i s)) tok) [0..<Suc (length s)]"

section \<open>Message payloads and their serialization\<close>

text \<open>
  A payload is a value that a message can carry: \<open>undefined\<close>, \<open>null\<close>, a boolean, a
  number, a BigInt, a string, an array, or an object given by its own properties in
  enumeration order. An array has its elements and, besides, may have own properties with
  names: \<open>JArray vs named\<close>. A value may refer back to an object or array that contains
  it; such a reference, which makes the payload cyclic, is \<open>JCyclicRef\<close> (it stands inside
  a payload, never for a whole one). A number \<open>JNumber i\<close> is an integer of magnitude
  below \<open>10^21\<close>, which is printed digit by digit; numbers with a fraction, larger ones and
  the non-finite ones are not modelled. Reading a property that a value does not have
  gives \<open>undefined\<close>; the names read here (\<open>success\<close>, \<open>status\<close>, \<open>type\<close>) are no indices.
\<close>

datatype jsval =
    JUndefined
  | JNull
  | JBool bool
  | JNumber int
  | JBigInt int
  | JString string
  | JArray "jsval list" "(string \<times> jsval) list"
  | JObject "(string \<times> jsval) list"
  | JCyclicRef

datatype error = TypeError | ProviderError

fun truthy :: "jsval \<Rightarrow> bool" where
  "truthy JUndefined = False"
| "truthy JNull = False"
| "truthy (JBool b) = b"
| "truthy (JNumber i) = (i \<noteq> 0)"
| "truthy (JBigInt i) = (i \<noteq> 0)"
| "truthy (JString s) = (s \<noteq> [])"
| "truthy (JArray vs named) = True"
| "truthy (JObject kvs) = True"
| "truthy JCyclicRef = True"

fun typeof :: "jsval \<Rightarrow> string" where
  "typeof JUndefined = ''undefined''"
| "typeof JNull = ''object''"
| "typeof (JBool b) = ''boolean''"
| "typeof (JNumber i) = ''number''"
| "typeof (JBigInt i) = ''bigint''"
| "typeof (JString s) = ''string''"
| "typeof (JArray vs named) = ''object''"
| "typeof (JObject kvs) = ''object''"
| "typeof JCyclicRef = ''object''"

fun get_prop :: "jsval \<Rightarrow> string \<Rightarrow> jsval" where
  "get_prop (JObject kvs) k = (case map_of kvs k of None \<Rightarrow> JUndefined | Some v \<Rightarrow> v)"
| "get_prop (JArray vs named) k = (case map_of named k of None \<Rightarrow> JUndefined | Some v \<Rightarrow> v)"
| "get_prop v k = JUndefined"

definition digit_char :: "nat \<Rightarrow> char" where
  "digit_char d = char_of (48 + d)"

fun show_nat :: "nat \<Rightarrow> string" where
  "show_nat n = (if n < 10 then [digit_char n] else show_nat (n div 10) @ [digit_char (n mod 10)])"

declare show_nat.simps [simp del]

text \<open>The decimal digits of an integer: the text of a number of magnitude below \<open>10^21\<close>.\<close>

definition show_int :: "int \<Rightarrow> string" where
  "show_int i = (if i < 0 then CHR ''-'' # show_nat (nat (- i)) else show_nat (nat i))"

definition hex_char :: "nat \<Rightarrow> char" where
  "hex_char d = (if d < 10 then char_of (48 + d) else char_of (87 + d))"

text \<open>The escaping that \<open>JSON.stringify\<close> applies to one character of a string.\<close>

definition quote_char :: "char \<Rightarrow> string" where
  "quote_char c =
     (let n = (of_char c :: nat) in
      if n = 34 then [CHR 0x5C, CHR 0x22]
      else if n = 92 then [CHR 0x5C, CHR 0x5C]
      else if n = 8 then [CHR 0x5C, CHR ''b'']
      else if n = 12 then [CHR 0x5C, CHR ''f'']
      else if n = 10 then [CHR 0x5C, CHR ''n'']
      else if n = 13 then [CHR 0x5C, CHR ''r'']
      else if n = 9 then [CHR 0x5C, CHR ''t'']
      else if n < 32 then [CHR 0x5C, CHR ''u'', CHR ''0'', CHR ''0'', hex_char (n div 16), hex_char (n mod 16)]
      else [c])"

definition QuoteJSONString :: "string \<Rightarrow> string" where
  "QuoteJSONString s = [CHR 0x22] @ concat (map quote_char s) @ [CHR 0x22]"

fun join :: "string \<Rightarrow> string list \<Rightarrow> string" where
  "join sep [] = []"
| "join sep [x] = x"
| "join sep (x # y # ys) = x @ sep @ join sep (y # ys)"

text \<open>The results of a list of steps, or the error of the first step that throws.\<close>

fun all_or_error :: "(error + 'a) list \<Rightarrow> error + 'a list" where
  "all_or_error [] = Inr []"
| "all_or_error (Inl e # rs) = Inl e"
| "all_or_error (Inr x # rs) = (case all_or_error rs of Inl e \<Rightarrow> Inl e | Inr xs \<Rightarrow> Inr (x # xs))"

text \<open>
  \<open>JSON.stringify\<close>. It throws a \<open>TypeError\<close> on a BigInt and on a cyclic reference,
  wherever in the payload it meets one. \<open>undefined\<close> has no text (the result is
  \<open>undefined\<close>, here \<open>None\<close>); inside an array it is written \<open>null\<close>, and a property of an
  object whose value is \<open>undefined\<close> is left out together with its name. Of an array the
  elements are written; its properties with names are not.
\<close>

fun JSON_stringify :: "jsval \<Rightarrow> error + string option" where
  "JSON_stringify JUndefined = Inr None"
| "JSON_stringify JNull = Inr (Some ''null'')"
| "JSON_stringify (JBool b) = Inr (Some (if b then ''true'' else ''false''))"
| "JSON_stringify (JNumber i) = Inr (Some (show_int i))"
| "JSON_stringify (JBigInt i) = Inl TypeError"
| "JSON_stringify (JString s) = Inr (Some (QuoteJSONString s))"
| "JSON_stringify (JArray vs named) =
     (case all_or_error
             (map (\<lambda>v. case JSON_stringify v of
                          Inl e \<Rightarrow> Inl e
                        | Inr None \<Rightarrow> Inr ''null''
                        | Inr (Some t) \<Rightarrow> Inr t) vs) of
        Inl e \<Rightarrow> Inl e
      | Inr items \<Rightarrow> Inr (Some (''['' @ join '','' items @ '']'')))"
| "JSON_stringify (JObject kvs) =
     (case all_or_error
             (map (\<lambda>kv. case JSON_stringify (snd kv) of
                           Inl e \<Rightarrow> Inl e
                         | Inr None \<Rightarrow> Inr []
                         | Inr (Some t) \<Rightarrow> Inr [QuoteJSONString (fst kv) @ '':'' @ t]) kvs) of
        Inl e \<Rightarrow> Inl e
      | Inr items \<Rightarrow> Inr (Some (''{'' @ join '','' (concat items) @ ''}'')))"
| "JSON_stringify JCyclicRef = Inl TypeError"

text \<open>
  \<open>isSuccessMessage\<close>. The three shortcuts compare with \<open>===\<close>; the fallback lowers the
  serialized payload and searches it for the vocabulary. The call of \<open>JSON.stringify\<close> is
  in no \<open>try\<close> block, so what it throws leaves the function; lowering \<open>undefined\<close> would
  raise a \<open>TypeError\<close> too.
\<close>

definition isSuccessMessage :: "jsval \<Rightarrow> error + bool" where
  "isSuccessMessage data =
     (if \<not> truthy data then Inr False
      else if typeof data = ''object'' \<and> get_prop data ''success'' = JBool True then Inr True
      else if typeof data = ''object'' \<and> get_prop data ''status'' = JString ''success'' then Inr True
      else if typeof data = ''object'' \<and> get_prop data ''type'' = JString ''bookingComplete''
        then Inr True
      else (case JSON_stringify data of
              Inl e \<Rightarrow> Inl e
            | Inr None \<Rightarrow> Inl TypeError
            | Inr (Some text) \<Rightarrow>
                let dataStr = toLowerCase text
                in Inr (list_ex (\<lambda>indicator. str_includes dataStr indicator) SUCCESS_INDICATORS)))"

section \<open>The page: configuration, browser state and the dispatcher\<close>

datatype element = Element string

text \<open>The object \<open>CONFIG\<close>, with the fields the script assigns later.\<close>

record config =
  redirectUrl :: string
  iframe :: "element option"
  loadingOverlay :: "element option"
  redirectDelay :: nat
  checkInterval :: nat
  maxRedirectAttempts :: nat
  redirectAttempts :: nat

definition initial_CONFIG :: config where
  "initial_CONFIG =
     \<lparr> redirectUrl = ''https://studentmarketing.agency/thanks-appointment/'',
       iframe = None,
       loadingOverlay = None,
       redirectDelay = 1500,
       checkInterval = 500,
       maxRedirectAttempts = 3,
       redirectAttempts = 0 \<rparr>"

datatype arg = Str string | Val jsval | Exn error

datatype console_line = Log "arg list" | LogError "arg list"

text \<open>An analytics global (\<open>gtag\<close>, \<open>ga\<close>, \<open>fbq\<close>) is undefined, works, or throws when called.\<close>

datatype provider = Absent | Working | Throwing

datatype listener =
    MessageListener
  | UrlChecker
  | MutationObserver
  | IframeLoadListener
  | CustomEventListener string

text \<open>
  The state of the page that the script reads and writes: \<open>CONFIG\<close>; the ids of the
  elements of the document; the console; the listeners, interval and observer that are
  registered; the variable \<open>lastUrl\<close> of the URL monitor; whether the overlay carries the
  class \<open>active\<close>; the analytics globals and the calls made to them (global, method);
  the delays of the timeouts that are scheduled and have not fired, oldest first; and the
  addresses assigned to \<open>window.location.href\<close>, in order.
\<close>

record page =
  CONFIG :: config
  document :: "string list"
  console :: "console_line list"
  listeners :: "listener list"
  lastUrl :: string
  overlayActive :: bool
  gtag :: provider
  ga :: provider
  fbq :: provider
  analytics :: "(string \<times> string) list"
  timeouts :: "nat list"
  navigations :: "string list"

definition console_log :: "arg list \<Rightarrow> page \<Rightarrow> page" where
  "console_log args s = s\<lparr>console := console s @ [Log args]\<rparr>"

definition console_error :: "arg list \<Rightarrow> page \<Rightarrow> page" where
  "console_error args s = s\<lparr>console := console s @ [LogError args]\<rparr>"

definition getElementById :: "page \<Rightarrow> string \<Rightarrow> element option" where
  "getElementById s i = (if i \<in> set (document s) then Some (Element i) else None)"

definition call_provider :: "provider \<Rightarrow> string \<Rightarrow> string \<Rightarrow> page \<Rightarrow> error + page" where
  "call_provider p name method s =
     (case p of
        Absent \<Rightarrow> Inr s
      | Working \<Rightarrow> Inr (s\<lparr>analytics := analytics s @ [(name, method)]\<rparr>)
      | Throwing \<Rightarrow> Inl ProviderError)"

text \<open>\<open>trackRedirect\<close>: the first global that throws ends the \<open>try\<close> block.\<close>

definition trackRedirect :: "string \<Rightarrow> page \<Rightarrow> page" where
  "trackRedirect method s =
     (case call_provider (gtag s) ''gtag'' method s of
        Inl e \<Rightarrow> console_log [Str ''Analytics tracking failed:'', Exn e] s
      | Inr s1 \<Rightarrow>
     (case call_provider (ga s1) ''ga'' method s1 of
        Inl e \<Rightarrow> console_log [Str ''Analytics tracking failed:'', Exn e] s1
      | Inr s2 \<Rightarrow>
     (case call_provider (fbq s2) ''fbq'' method s2 of
        Inl e \<Rightarrow> console_log [Str ''Analytics tracking failed:'', Exn e] s2
      | Inr s3 \<Rightarrow> console_log [Str ''Analytics tracked:'', Str method] s3)))"

definition triggerRedirect :: "string \<Rightarrow> page \<Rightarrow> page" where
  "triggerRedirect method s =
     (if redirectAttempts (CONFIG s) \<ge> maxRedirectAttempts (CONFIG s)
      then console_log [Str ''Max redirect attempts reached''] s
      else
        let s1 = s\<lparr>CONFIG := (CONFIG s)\<lparr>redirectAttempts := redirectAttempts (CONFIG s) + 1\<rparr>\<rparr>;
            s2 = console_log
                   [Str (''Triggering redirect (method: '' @ method @ '', attempt: ''
                         @ show_nat (redirectAttempts (CONFIG s1)) @ '')'')] s1;
            s3 = (if loadingOverlay (CONFIG s2) \<noteq> None then s2\<lparr>overlayActive := True\<rparr> else s2);
            s4 = trackRedirect method s3
        in s4\<lparr>timeouts := timeouts s4 @ [redirectDelay (CONFIG s4)]\<rparr>)"

text \<open>The function given to \<open>setTimeout\<close>, and the firing of the oldest pending timeout.\<close>

definition navigate :: "page \<Rightarrow> page" where
  "navigate s = s\<lparr>navigations := navigations s @ [redirectUrl (CONFIG s)]\<rparr>"

definition runTimeout :: "page \<Rightarrow> page" where
  "runTimeout s = (case timeouts s of [] \<Rightarrow> s | d # ds \<Rightarrow> navigate (s\<lparr>timeouts := ds\<rparr>))"

definition triggerManualRedirect :: "page \<Rightarrow> page" where
  "triggerManualRedirect s = triggerRedirect ''manual'' (console_log [Str ''Manual redirect triggered''] s)"

section \<open>The detectors\<close>

text \<open>The listener of \<open>message\<close> events; an exception of the classifier leaves it.\<close>

definition onMessage :: "string \<Rightarrow> jsval \<Rightarrow> page \<Rightarrow> page" where
  "onMessage origin data s =
     (if \<not> str_includes origin ''appointmentcore.com'' then s
      else
        let s1 = console_log [Str ''PostMessage received:'', Val data] s
        in (case isSuccessMessage data of
              Inl e \<Rightarrow> s1
            | Inr ok \<Rightarrow>
                if ok
                then triggerRedirect ''postMessage''
                       (console_log [Str ''Success detected via postMessage''] s1)
                else s1))"

text \<open>
  One tick of the URL monitor. Reading the address of the frame gives the address, or
  throws (\<open>None\<close>), which the \<open>catch\<close> block swallows.
\<close>

definition urlCheckerTick :: "string option \<Rightarrow> page \<Rightarrow> page" where
  "urlCheckerTick href s =
     (case href of
        None \<Rightarrow> s
      | Some currentUrl \<Rightarrow>
          if currentUrl \<noteq> lastUrl s
          then
            let s1 = console_log [Str ''URL changed:'', Str currentUrl] (s\<lparr>lastUrl := currentUrl\<rparr>)
            in if isSuccessUrl (Some currentUrl)
               then
                 let s2 = console_log [Str ''Success detected via URL monitoring''] s1;
                     s3 = s2\<lparr>listeners := removeAll UrlChecker (listeners s2)\<rparr>
                 in triggerRedirect ''urlMonitoring'' s3
               else s1
          else s)"

record node =
  nodeType :: nat
  textContent :: "string option"
  innerText :: "string option"

record mutation =
  addedNodes :: "node list"

definition js_or :: "string option \<Rightarrow> string option \<Rightarrow> string option" where
  "js_or a b = (if falsy_str a then b else a)"

definition onAddedNode :: "node \<Rightarrow> page \<Rightarrow> page" where
  "onAddedNode n s =
     (if nodeType n = 1
      then
        let text = js_or (js_or (textContent n) (innerText n)) (Some [])
        in if containsSuccessIndicator text
           then
             let s1 = console_log [Str ''Success detected via mutation observer''] s;
                 s2 = s1\<lparr>listeners := removeAll MutationObserver (listeners s1)\<rparr>
             in triggerRedirect ''mutationObserver'' s2
           else s
      else s)"

text \<open>The callback of the observer: \<open>forEach\<close> over the records, and in each over the added nodes.\<close>

definition onMutations :: "mutation list \<Rightarrow> page \<Rightarrow> page" where
  "onMutations mutations s =
     foldl (\<lambda>s1 m. foldl (\<lambda>s2 n. onAddedNode n s2) s1 (addedNodes m)) s mutations"

definition onIframeLoad :: "string option \<Rightarrow> page \<Rightarrow> page" where
  "onIframeLoad href s =
     (let s1 = console_log [Str ''Iframe loaded/reloaded''] s
      in case href of
           None \<Rightarrow> s1
         | Some url \<Rightarrow>
             if isSuccessUrl (Some url)
             then triggerRedirect ''navigationWatcher''
                    (console_log [Str ''Success detected via navigation watcher''] s1)
             else s1)"

definition onCustomEvent :: "string \<Rightarrow> jsval \<Rightarrow> page \<Rightarrow> page" where
  "onCustomEvent eventName detail s =
     triggerRedirect ''customEvent''
       (console_log [Str ''Custom event detected:'', Str eventName, Val detail] s)"

section \<open>Setting the detectors up\<close>

definition setupPostMessageListener :: "page \<Rightarrow> error + page" where
  "setupPostMessageListener s =
     Inr (console_log [Str ''PostMessage listener setup complete'']
            (s\<lparr>listeners := listeners s @ [MessageListener]\<rparr>))"

definition setupUrlMonitoring :: "page \<Rightarrow> error + page" where
  "setupUrlMonitoring s =
     Inr (console_log [Str ''URL monitoring setup complete'']
            (s\<lparr>lastUrl := [], listeners := listeners s @ [UrlChecker]\<rparr>))"

definition setupMutationObserver :: "page \<Rightarrow> error + page" where
  "setupMutationObserver s =
     Inr (console_log [Str ''Mutation observer setup complete'']
            (s\<lparr>listeners := listeners s @ [MutationObserver]\<rparr>))"

text \<open>\<open>CONFIG.iframe.addEventListener\<close> is a \<open>TypeError\<close> when \<open>CONFIG.iframe\<close> is \<open>null\<close>.\<close>

definition setupNavigationWatcher :: "page \<Rightarrow> error + page" where
  "setupNavigationWatcher s =
     (case iframe (CONFIG s) of
        None \<Rightarrow> Inl TypeError
      | Some e \<Rightarrow>
          Inr (console_log [Str ''Navigation watcher setup complete'']
                 (s\<lparr>listeners := listeners s @ [IframeLoadListener]\<rparr>)))"

definition eventNames :: "string list" where
  "eventNames =
     [''appointmentBooked'', ''bookingComplete'', ''bookingSuccess'', ''appointmentSubmitted'',
      ''formSubmitted'']"

definition setupCustomEventListener :: "page \<Rightarrow> error + page" where
  "setupCustomEventListener s =
     Inr (console_log [Str ''Custom event listeners setup complete'']
            (s\<lparr>listeners := listeners s @ map CustomEventListener eventNames\<rparr>))"

text \<open>Running the next statement unless the one before has thrown.\<close>

definition and_then :: "error + page \<Rightarrow> (page \<Rightarrow> error + page) \<Rightarrow> error + page" where
  "and_then r f = (case r of Inl e \<Rightarrow> Inl e | Inr s \<Rightarrow> f s)"

definition init :: "page \<Rightarrow> error + page" where
  "init s =
     (let s1 = s\<lparr>CONFIG := (CONFIG s)\<lparr>iframe := getElementById s ''booking-iframe''\<rparr>\<rparr>;
          s2 = s1\<lparr>CONFIG := (CONFIG s1)\<lparr>loadingOverlay := getElementById s1 ''loadingOverlay''\<rparr>\<rparr>
      in if iframe (CONFIG s2) = None
         then Inr (console_error [Str ''Booking iframe not found''] s2)
         else
           and_then (and_then (and_then (and_then
             (setupPostMessageListener (console_log [Str ''Redirect handler initialized''] s2))
             setupUrlMonitoring) setupMutationObserver) setupNavigationWatcher)
             setupCustomEventListener)"

text \<open>The page as the script finds it: a document, nothing registered, nothing logged.\<close>

definition fresh_page :: "string list \<Rightarrow> page" where
  "fresh_page doc =
     \<lparr> CONFIG = initial_CONFIG, document = doc, console = [], listeners = [], lastUrl = [],
       overlayActive = False, gtag = Absent, ga = Absent, fbq = Absent, analytics = [],
       timeouts = [], navigations = [] \<rparr>"

text \<open>The page once the script has run \<open>init\<close> on that document.\<close>

definition loaded_page :: "string list \<Rightarrow> page" where
  "loaded_page doc = (case init (fresh_page doc) of Inl e \<Rightarrow> fresh_page doc | Inr s \<Rightarrow> s)"

section \<open>The event loop\<close>

text \<open>
  What the browser can deliver to the script: a message with its origin and data, a
  tick of the interval with the outcome of reading the address of the frame, a batch of
  mutation records, a load of the frame (with the same outcome), a custom event with its
  name and detail, the firing of the oldest timeout, and a call of
  \<open>window.triggerManualRedirect\<close>. A callback runs only while it is registered.
\<close>

datatype event =
    Message string jsval
  | IntervalTick "string option"
  | MutationBatch "mutation list"
  | IframeLoad "string option"
  | CustomEvent string jsval
  | TimeoutFires
  | ManualCall

fun deliver :: "event \<Rightarrow> page \<Rightarrow> page" where
  "deliver (Message origin data) s =
     (if MessageListener \<in> set (listeners s) then onMessage origin data s else s)"
| "deliver (IntervalTick href) s =
     (if UrlChecker \<in> set (listeners s) then urlCheckerTick href s else s)"
| "deliver (MutationBatch ms) s =
     (if MutationObserver \<in> set (listeners s) then onMutations ms s else s)"
| "deliver (IframeLoad href) s =
     (if IframeLoadListener \<in> set (listeners s) then onIframeLoad href s else s)"
| "deliver (CustomEvent name detail) s =
     (if CustomEventListener name \<in> set (listeners s) then onCustomEvent name detail s else s)"
| "deliver TimeoutFires s = runTimeout s"
| "deliver ManualCall s = triggerManualRedirect s"

definition run :: "event list \<Rightarrow> page \<Rightarrow> page" where
  "run es s = foldl (\<lambda>s1 e. deliver e s1) s es"

text \<open>Letting every timeout that is still pending fire.\<close>

definition drain :: "page \<Rightarrow> page" where
  "drain s = run (replicate (length (timeouts s)) TimeoutFires) s"

text \<open>
  What every run of the event loop keeps true of a page that started with no attempt
  made: the settings \<open>c\<close> are still in place, the attempts are within the ceiling, every
  accepted attempt is a pending timeout or a navigation performed, and every navigation
  went to the redirect address.
\<close>

definition dispatcher_inv :: "config \<Rightarrow> page \<Rightarrow> bool" where
  "dispatcher_inv c s =
     (redirectUrl (CONFIG s) = redirectUrl c
      \<and> maxRedirectAttempts (CONFIG s) = maxRedirectAttempts c
      \<and> redirectAttempts (CONFIG s) \<le> maxRedirectAttempts c
      \<and> length (navigations s) + length (timeouts s) = redirectAttempts (CONFIG s)
      \<and> (\<forall>u \<in> set (navigations s). u = redirectUrl c))"

text \<open>An added node on which the observer reports a success: an element whose text matches.\<close>

definition node_matches :: "node \<Rightarrow> bool" where
  "node_matches n = (nodeType n = 1
     \<and> containsSuccessIndicator (js_or (js_or (textContent n) (innerText n)) (Some [])))"

section \<open>The dispatcher\<close>

subsection \<open>What one call changes\<close>

lemma trackRedirect_frame:
  "CONFIG (trackRedirect m s) = CONFIG s"
  "timeouts (trackRedirect m s) = timeouts s"
  "navigations (trackRedirect m s) = navigations s"
  "listeners (trackRedirect m s) = listeners s"
  by (simp_all add: trackRedirect_def call_provider_def console_log_def split: provider.splits)

lemma triggerRedirect_reject:
  "maxRedirectAttempts (CONFIG s) \<le> redirectAttempts (CONFIG s) \<Longrightarrow>
   triggerRedirect m s = console_log [Str ''Max redirect attempts reached''] s"
  by (simp add: triggerRedirect_def)

lemma triggerRedirect_CONFIG:
  "CONFIG (triggerRedirect m s) =
     (CONFIG s)\<lparr>redirectAttempts :=
        (if maxRedirectAttempts (CONFIG s) \<le> redirectAttempts (CONFIG s)
         then redirectAttempts (CONFIG s) else redirectAttempts (CONFIG s) + 1)\<rparr>"
  by (simp add: triggerRedirect_def Let_def trackRedirect_frame console_log_def)

lemma triggerRedirect_timeouts:
  "timeouts (triggerRedirect m s) =
     (if maxRedirectAttempts (CONFIG s) \<le> redirectAttempts (CONFIG s)
      then timeouts s else timeouts s @ [redirectDelay (CONFIG s)])"
  by (simp add: triggerRedirect_def Let_def trackRedirect_frame console_log_def)

lemma triggerRedirect_navigations: "navigations (triggerRedirect m s) = navigations s"
  by (simp add: triggerRedirect_def Let_def trackRedirect_frame console_log_def)

lemma triggerRedirect_listeners: "listeners (triggerRedirect m s) = listeners s"
  by (simp add: triggerRedirect_def Let_def trackRedirect_frame console_log_def)

lemma onAddedNodes_preserves:
  assumes "\<And>n t. P t \<Longrightarrow> P (onAddedNode n t)" and "P s"
  shows "P (foldl (\<lambda>s2 n. onAddedNode n s2) s ns)"
  using assms(2) by (induction ns arbitrary: s) (simp_all add: assms(1))

lemma deliver_preserves:
  assumes trig: "\<And>m t. P t \<Longrightarrow> P (triggerRedirect m t)"
    and log: "\<And>a t. P t \<Longrightarrow> P (console_log a t)"
    and lis: "\<And>l t. P t \<Longrightarrow> P (t\<lparr>listeners := l\<rparr>)"
    and url: "\<And>u t. P t \<Longrightarrow> P (t\<lparr>lastUrl := u\<rparr>)"
    and fire: "\<And>t. P t \<Longrightarrow> P (runTimeout t)"
    and s: "P s"
  shows "P (deliver e s)"
proof (cases e)
  case (Message origin data)
  then show ?thesis using s
    by (auto simp: onMessage_def Let_def intro!: trig log split: sum.splits)
next
  case (IntervalTick href)
  then show ?thesis using s
    by (auto simp: urlCheckerTick_def Let_def intro!: trig log lis url split: option.splits)
next
  case (MutationBatch ms)
  have node: "P (onAddedNode n t)" if "P t" for n t
    using that by (auto simp: onAddedNode_def Let_def intro!: trig log lis)
  have "P (onMutations ms t)" if "P t" for t
    using that unfolding onMutations_def
    by (induction ms arbitrary: t) (simp_all add: onAddedNodes_preserves [of P, OF node])
  with MutationBatch s show ?thesis by simp
next
  case (IframeLoad href)
  then show ?thesis using s
    by (auto simp: onIframeLoad_def Let_def intro!: trig log split: option.splits)
next
  case (CustomEvent name detail)
  then show ?thesis using s
    by (auto simp: onCustomEvent_def intro!: trig log)
next
  case TimeoutFires
  then show ?thesis using s by (simp add: fire)
next
  case ManualCall
  then show ?thesis using s by (simp add: triggerManualRedirect_def trig log)
qed

lemma run_preserves:
  assumes trig: "\<And>m t. P t \<Longrightarrow> P (triggerRedirect m t)"
    and log: "\<And>a t. P t \<Longrightarrow> P (console_log a t)"
    and lis: "\<And>l t. P t \<Longrightarrow> P (t\<lparr>listeners := l\<rparr>)"
    and url: "\<And>u t. P t \<Longrightarrow> P (t\<lparr>lastUrl := u\<rparr>)"
    and fire: "\<And>t. P t \<Longrightarrow> P (runTimeout t)"
    and s: "P s"
  shows "P (run es s)"
  using s unfolding run_def
proof (induction es arbitrary: s)
  case Nil
  then show ?case by simp
next
  case (Cons e es)
  have "P (deliver e s)"
    using trig log lis url fire Cons.prems by (rule deliver_preserves [of P])
  then show ?case using Cons.IH by simp
qed

lemma inv_run:
  assumes "dispatcher_inv c s"
  shows "dispatcher_inv c (run es s)"
proof (rule run_preserves [of "dispatcher_inv c"])
  show "dispatcher_inv c (triggerRedirect m t)" if "dispatcher_inv c t" for m t
    using that unfolding dispatcher_inv_def
    by (simp add: triggerRedirect_CONFIG triggerRedirect_timeouts triggerRedirect_navigations)
  show "dispatcher_inv c (console_log a t)" if "dispatcher_inv c t" for a t
    using that by (simp add: dispatcher_inv_def console_log_def)
  show "dispatcher_inv c (t\<lparr>listeners := l\<rparr>)" if "dispatcher_inv c t" for l t
    using that by (simp add: dispatcher_inv_def)
  show "dispatcher_inv c (t\<lparr>lastUrl := u\<rparr>)" if "dispatcher_inv c t" for u t
    using that by (simp add: dispatcher_inv_def)
  show "dispatcher_inv c (runTimeout t)" if "dispatcher_inv c t" for t
    using that unfolding dispatcher_inv_def runTimeout_def navigate_def
    by (cases "timeouts t") auto
  show "dispatcher_inv c s" by (rule assms)
qed

lemma ceiling_run:
  assumes "redirectAttempts (CONFIG s) \<le> maxRedirectAttempts (CONFIG s)"
  shows "maxRedirectAttempts (CONFIG (run es s)) = maxRedirectAttempts (CONFIG s)
         \<and> redirectAttempts (CONFIG (run es s)) \<le> maxRedirectAttempts (CONFIG s)"
proof (rule run_preserves [of "\<lambda>t. maxRedirectAttempts (CONFIG t) = maxRedirectAttempts (CONFIG s)
         \<and> redirectAttempts (CONFIG t) \<le> maxRedirectAttempts (CONFIG s)"])
  show "maxRedirectAttempts (CONFIG s) = maxRedirectAttempts (CONFIG s)
        \<and> redirectAttempts (CONFIG s) \<le> maxRedirectAttempts (CONFIG s)"
    using assms by simp
qed (auto simp: triggerRedirect_CONFIG console_log_def runTimeout_def navigate_def split: list.splits)

lemma max_run: "maxRedirectAttempts (CONFIG (run es s)) = maxRedirectAttempts (CONFIG s)"
proof (rule run_preserves [of "\<lambda>t. maxRedirectAttempts (CONFIG t) = maxRedirectAttempts (CONFIG s)"])
qed (auto simp: triggerRedirect_CONFIG console_log_def runTimeout_def navigate_def split: list.splits)

lemma inv_start:
  "redirectAttempts (CONFIG s) = 0 \<Longrightarrow> timeouts s = [] \<Longrightarrow> navigations s = [] \<Longrightarrow>
   dispatcher_inv (CONFIG s) s"
  by (simp add: dispatcher_inv_def)

lemma run_append: "run (es @ fs) s = run fs (run es s)"
  by (simp add: run_def)

lemma run_snoc: "run (es @ [e]) s = deliver e (run es s)"
  by (simp add: run_def)

lemma run_timeouts:
  "k \<le> length (timeouts s) \<Longrightarrow>
   navigations (run (replicate k TimeoutFires) s) = navigations s @ replicate k (redirectUrl (CONFIG s))"
proof (induction k arbitrary: s)
  case 0
  then show ?case by (simp add: run_def)
next
  case (Suc k)
  then obtain d ds where t: "timeouts s = d # ds" by (cases "timeouts s") auto
  let ?s = "runTimeout s"
  have "k \<le> length (timeouts ?s)" using Suc.prems t by (simp add: runTimeout_def navigate_def)
  from Suc.IH [OF this] t show ?case
    by (simp add: run_def runTimeout_def navigate_def replicate_append_same)
qed

lemma navigations_drain:
  "navigations (drain s) = navigations s @ replicate (length (timeouts s)) (redirectUrl (CONFIG s))"
  unfolding drain_def by (rule run_timeouts) simp

lemma attempts_manual_calls:
  "set es \<subseteq> {ManualCall, TimeoutFires} \<Longrightarrow>
   redirectAttempts (CONFIG s) \<le> maxRedirectAttempts (CONFIG s) \<Longrightarrow>
   redirectAttempts (CONFIG (run es s))
     = min (redirectAttempts (CONFIG s) + count_list es ManualCall) (maxRedirectAttempts (CONFIG s))
   \<and> maxRedirectAttempts (CONFIG (run es s)) = maxRedirectAttempts (CONFIG s)"
proof (induction es arbitrary: s rule: rev_induct)
  case Nil
  then show ?case by (simp add: run_def)
next
  case (snoc e es)
  then have IH: "redirectAttempts (CONFIG (run es s))
     = min (redirectAttempts (CONFIG s) + count_list es ManualCall) (maxRedirectAttempts (CONFIG s))"
     "maxRedirectAttempts (CONFIG (run es s)) = maxRedirectAttempts (CONFIG s)"
    by auto
  from snoc.prems have "e = ManualCall \<or> e = TimeoutFires" by auto
  then show ?case
  proof
    assume "e = ManualCall"
    with IH show ?thesis
      by (auto simp: run_snoc triggerManualRedirect_def triggerRedirect_CONFIG console_log_def)
  next
    assume "e = TimeoutFires"
    with IH show ?thesis
      by (auto simp: run_snoc runTimeout_def navigate_def split: list.splits)
  qed
qed

subsection \<open>Navigations\<close>

text \<open>
  The function given to \<open>setTimeout\<close> assigns \<open>window.location.href\<close> without a test,
  and nothing records that a navigation has been made. So from a page on which no
  attempt has been made, after any sequence of events and once every pending timeout has
  fired, the navigations are one assignment of the redirect address for each accepted
  call of \<open>triggerRedirect\<close>; their number is at most \<open>maxRedirectAttempts\<close>, and after
  \<open>n\<close> manual calls, interleaved with firings of timeouts in any way, it is the smaller
  of \<open>n\<close> and \<open>maxRedirectAttempts\<close>.
\<close>

lemma navigations_per_accepted_call:
  assumes "redirectAttempts (CONFIG s) = 0" and "timeouts s = []" and "navigations s = []"
  shows "navigations (drain (run es s))
           = replicate (redirectAttempts (CONFIG (run es s))) (redirectUrl (CONFIG s))
         \<and> redirectAttempts (CONFIG (run es s)) \<le> maxRedirectAttempts (CONFIG s)
         \<and> (set es \<subseteq> {ManualCall, TimeoutFires} \<longrightarrow>
              redirectAttempts (CONFIG (run es s))
                = min (count_list es ManualCall) (maxRedirectAttempts (CONFIG s)))"
proof -
  let ?t = "run es s"
  have inv: "dispatcher_inv (CONFIG s) ?t"
    using assms by (intro inv_run inv_start)
  then have url: "redirectUrl (CONFIG ?t) = redirectUrl (CONFIG s)"
    and len: "length (navigations ?t) + length (timeouts ?t) = redirectAttempts (CONFIG ?t)"
    and nav: "replicate (length (navigations ?t)) (redirectUrl (CONFIG s)) = navigations ?t"
    unfolding dispatcher_inv_def by (simp_all add: replicate_length_same)
  have "navigations (drain ?t)
          = replicate (length (navigations ?t)) (redirectUrl (CONFIG s))
            @ replicate (length (timeouts ?t)) (redirectUrl (CONFIG s))"
    by (simp add: navigations_drain url nav)
  also have "\<dots> = replicate (redirectAttempts (CONFIG ?t)) (redirectUrl (CONFIG s))"
    by (simp only: replicate_add [symmetric] len)
  finally have a: "navigations (drain ?t)
      = replicate (redirectAttempts (CONFIG ?t)) (redirectUrl (CONFIG s))" .
  have b: "redirectAttempts (CONFIG ?t) \<le> maxRedirectAttempts (CONFIG s)"
    using inv by (simp add: dispatcher_inv_def)
  have c: "set es \<subseteq> {ManualCall, TimeoutFires} \<longrightarrow>
              redirectAttempts (CONFIG ?t)
                = min (count_list es ManualCall) (maxRedirectAttempts (CONFIG s))"
    using attempts_manual_calls [of es s] assms(1) by simp
  from a b c show ?thesis by blast
qed

text \<open>
  Claim C1, on the configuration as shipped (\<open>maxRedirectAttempts = 3\<close>): two calls of the
  dispatcher in a burst are both accepted, both schedule a timeout, and when the two
  timeouts fire the page is navigated twice. Exactly one navigation is what the claim
  asks for.
\<close>

theorem second_scheduled_navigation_runs:
  "navigations (run [ManualCall, ManualCall, TimeoutFires, TimeoutFires] (fresh_page [''booking-iframe'']))
     = [''https://studentmarketing.agency/thanks-appointment/'',
        ''https://studentmarketing.agency/thanks-appointment/'']"
  by (simp add: run_def triggerManualRedirect_def triggerRedirect_navigations
      triggerRedirect_timeouts triggerRedirect_CONFIG runTimeout_def navigate_def console_log_def
      fresh_page_def initial_CONFIG_def)

subsection \<open>The ceiling\<close>

text \<open>
  Claim C2. After any history in which the attempts have reached \<open>maxRedirectAttempts\<close>,
  a further call of \<open>triggerRedirect\<close> leaves \<open>CONFIG\<close>, the overlay, the analytics calls,
  the pending timeouts and the navigations as they are; all it does is print
  \<open>Max redirect attempts reached\<close> on the console.
\<close>

theorem attempt_ceiling_noop:
  assumes "maxRedirectAttempts (CONFIG s) \<le> redirectAttempts (CONFIG (run es s))"
  shows "triggerRedirect method (run es s)
         = (run es s)\<lparr>console := console (run es s) @ [Log [Str ''Max redirect attempts reached'']]\<rparr>"
proof -
  have "maxRedirectAttempts (CONFIG (run es s)) \<le> redirectAttempts (CONFIG (run es s))"
    using assms by (simp add: max_run)
  then show ?thesis
    by (simp add: triggerRedirect_reject console_log_def)
qed

theorem attempt_ceiling_noop_witness:
  "maxRedirectAttempts (CONFIG (fresh_page []))
     \<le> redirectAttempts (CONFIG (run [ManualCall, ManualCall, ManualCall] (fresh_page [])))
   \<and> triggerRedirect ''manual'' (run [ManualCall, ManualCall, ManualCall] (fresh_page []))
       = (run [ManualCall, ManualCall, ManualCall] (fresh_page []))
           \<lparr>console := console (run [ManualCall, ManualCall, ManualCall] (fresh_page []))
                        @ [Log [Str ''Max redirect attempts reached'']]\<rparr>"
proof -
  have h: "maxRedirectAttempts (CONFIG (fresh_page []))
     \<le> redirectAttempts (CONFIG (run [ManualCall, ManualCall, ManualCall] (fresh_page [])))"
    by (simp add: run_def triggerManualRedirect_def triggerRedirect_CONFIG console_log_def
        fresh_page_def initial_CONFIG_def)
  from attempt_ceiling_noop [OF h] h show ?thesis by blast
qed

text \<open>
  Claim C3. Starting from no attempt, after every sequence of events the attempts are at
  most \<open>maxRedirectAttempts\<close>; and a call that is accepted (the attempts are below the
  ceiling) adds exactly one to them at once, before any navigation: the call itself
  performs none.
\<close>

theorem ceiling_invariant:
  "(redirectAttempts (CONFIG s) = 0 \<longrightarrow>
      redirectAttempts (CONFIG (run es s)) \<le> maxRedirectAttempts (CONFIG (run es s)))
   \<and> (redirectAttempts (CONFIG t) < maxRedirectAttempts (CONFIG t) \<longrightarrow>
        redirectAttempts (CONFIG (triggerRedirect method t)) = redirectAttempts (CONFIG t) + 1
        \<and> navigations (triggerRedirect method t) = navigations t)"
proof -
  have "redirectAttempts (CONFIG (run es s)) \<le> maxRedirectAttempts (CONFIG (run es s))"
    if "redirectAttempts (CONFIG s) = 0"
    using ceiling_run [of s es] that by simp
  then show ?thesis
    by (simp add: triggerRedirect_CONFIG triggerRedirect_navigations)
qed

theorem ceiling_invariant_witness:
  "redirectAttempts (CONFIG (fresh_page [])) = 0
   \<and> redirectAttempts (CONFIG (run [ManualCall, CustomEvent ''bookingComplete'' JNull, ManualCall] (fresh_page [])))
       \<le> maxRedirectAttempts (CONFIG (run [ManualCall, CustomEvent ''bookingComplete'' JNull, ManualCall] (fresh_page [])))
   \<and> redirectAttempts (CONFIG (fresh_page [])) < maxRedirectAttempts (CONFIG (fresh_page []))
   \<and> redirectAttempts (CONFIG (triggerRedirect ''manual'' (fresh_page []))) = 1"
proof -
  have h: "redirectAttempts (CONFIG (fresh_page [])) = 0"
    "redirectAttempts (CONFIG (fresh_page [])) < maxRedirectAttempts (CONFIG (fresh_page []))"
    by (simp_all add: fresh_page_def initial_CONFIG_def)
  from ceiling_invariant [of "fresh_page []" "[ManualCall, CustomEvent ''bookingComplete'' JNull, ManualCall]"
      "fresh_page []" "''manual''"] h
  show ?thesis by simp
qed

section \<open>The classifier\<close>

subsection \<open>Texts and addresses\<close>

lemma sublist_pos: "sublist t s \<longleftrightarrow> (\<exists>i\<le>length s. take (length t) (drop i s) = t)"
proof
  assume "sublist t s"
  then obtain ps ss where "s = ps @ t @ ss" by (auto simp: sublist_def)
  then have "length ps \<le> length s \<and> take (length t) (drop (length ps) s) = t" by simp
  then show "\<exists>i\<le>length s. take (length t) (drop i s) = t" by blast
next
  assume "\<exists>i\<le>length s. take (length t) (drop i s) = t"
  then obtain i where i: "i \<le> length s" "take (length t) (drop i s) = t" by blast
  have "s = take i s @ take (length t) (drop i s) @ drop (length t) (drop i s)"
    by (simp only: append_take_drop_id)
  with i show "sublist t s" unfolding sublist_def by metis
qed

lemma indicator_lower: "tok \<in> set SUCCESS_INDICATORS \<Longrightarrow> toLowerCase tok = tok"
  by (auto simp: SUCCESS_INDICATORS_def toLowerCase_def lower_char_def)

lemma indicator_nonempty: "tok \<in> set SUCCESS_INDICATORS \<Longrightarrow> tok \<noteq> []"
  by (auto simp: SUCCESS_INDICATORS_def)

lemma vocabulary_test_empty:
  "\<not> list_ex (\<lambda>indicator. str_includes (toLowerCase []) indicator) SUCCESS_INDICATORS"
  by (auto simp: list_ex_iff str_includes_def toLowerCase_def dest: indicator_nonempty)

lemma containsSuccessIndicator_Some:
  "containsSuccessIndicator (Some t)
     = list_ex (\<lambda>indicator. str_includes (toLowerCase t) indicator) SUCCESS_INDICATORS"
  using vocabulary_test_empty by (cases "t = []") (simp_all add: containsSuccessIndicator_def)

lemma occurs_iff_includes:
  assumes "tok \<in> set SUCCESS_INDICATORS"
  shows "occurs_ignoring_case tok s \<longleftrightarrow> str_includes (toLowerCase s) tok"
proof -
  have "occurs_ignoring_case tok s \<longleftrightarrow>
        (\<exists>i\<le>length s. toLowerCase (take (length tok) (drop i s)) = toLowerCase tok)"
    by (auto simp: occurs_ignoring_case_def eq_ignoring_case_def list_ex_iff less_Suc_eq_le
        simp del: upt_Suc)
  also have "\<dots> \<longleftrightarrow> (\<exists>i\<le>length (toLowerCase s). take (length tok) (drop i (toLowerCase s)) = tok)"
    using indicator_lower [OF assms] by (simp add: toLowerCase_def take_map drop_map)
  also have "\<dots> \<longleftrightarrow> sublist tok (toLowerCase s)"
    by (simp only: sublist_pos)
  finally show ?thesis by (simp add: str_includes_def)
qed

lemma vocabulary_test:
  "list_ex (\<lambda>tok. occurs_ignoring_case tok s) SUCCESS_INDICATORS
     = list_ex (\<lambda>indicator. str_includes (toLowerCase s) indicator) SUCCESS_INDICATORS"
  by (simp only: list_ex_iff) (meson occurs_iff_includes)

text \<open>
  Claim C6. \<open>isSuccessUrl\<close> and \<open>containsSuccessIndicator\<close> answer, for every text, whether
  some token of the vocabulary occurs in it with the case of the letters ignored; for
  the empty text and for an absent one the answer is no. Both are total: no input makes
  them throw.
\<close>

theorem classify_text_url:
  "isSuccessUrl (Some s) = list_ex (\<lambda>tok. occurs_ignoring_case tok s) SUCCESS_INDICATORS
   \<and> containsSuccessIndicator (Some s) = list_ex (\<lambda>tok. occurs_ignoring_case tok s) SUCCESS_INDICATORS
   \<and> isSuccessUrl None = False \<and> isSuccessUrl (Some []) = False
   \<and> containsSuccessIndicator None = False \<and> containsSuccessIndicator (Some []) = False"
proof -
  have "isSuccessUrl (Some s) = list_ex (\<lambda>tok. occurs_ignoring_case tok s) SUCCESS_INDICATORS"
    using vocabulary_test_empty by (cases "s = []") (simp_all add: isSuccessUrl_def vocabulary_test)
  moreover have "containsSuccessIndicator (Some s)
      = list_ex (\<lambda>tok. occurs_ignoring_case tok s) SUCCESS_INDICATORS"
    using vocabulary_test_empty
    by (cases "s = []") (simp_all add: containsSuccessIndicator_def vocabulary_test)
  ultimately show ?thesis
    by (simp add: isSuccessUrl_def containsSuccessIndicator_def)
qed

subsection \<open>Message payloads\<close>

lemma sublist_join: "x \<in> set xs \<Longrightarrow> sublist x (join sep xs)"
proof (induction sep xs rule: join.induct)
  case (3 sep a b ys)
  show ?case
  proof (cases "x = a")
    case True
    then show ?thesis by simp
  next
    case False
    with 3 have "sublist x (join sep (b # ys))" by simp
    then obtain ps ss where "join sep (b # ys) = ps @ x @ ss" by (auto simp: sublist_def)
    then have "join sep (a # b # ys) = (a @ sep @ ps) @ x @ ss" by simp
    then show ?thesis unfolding sublist_def by blast
  qed
qed simp_all

lemma indicator_plain:
  "tok \<in> set SUCCESS_INDICATORS \<Longrightarrow> concat (map quote_char tok) = tok"
  by (auto simp: SUCCESS_INDICATORS_def quote_char_def)

lemma of_char_hex_char:
  "d < 16 \<Longrightarrow> (of_char (hex_char d) :: nat) = (if d < 10 then 48 + d else 87 + d)"
  by (simp add: hex_char_def)

lemma lower_char_other: "\<not> (65 \<le> (of_char d :: nat) \<and> (of_char d :: nat) \<le> 90) \<Longrightarrow> lower_char d = d"
  by (auto simp: lower_char_def Let_def)

lemma lower_hex_char: "d < 16 \<Longrightarrow> lower_char (hex_char d) = hex_char d"
  by (rule lower_char_other) (simp add: of_char_hex_char)

lemma quote_char_plain:
  assumes "32 \<le> (of_char c :: nat)" and "(of_char c :: nat) \<noteq> 34" and "(of_char c :: nat) \<noteq> 92"
  shows "quote_char c = [c]"
  using assms by (simp add: quote_char_def Let_def)

lemma quote_char_escape:
  assumes "\<not> (65 \<le> (of_char c :: nat) \<and> (of_char c :: nat) \<le> 90)" and "d \<in> set (quote_char c)"
  shows "lower_char d = d"
proof (cases "quote_char c = [c]")
  case True
  with assms show ?thesis by (simp add: lower_char_other)
next
  case False
  let ?n = "of_char c :: nat"
  have n: "?n < 32 \<or> ?n = 34 \<or> ?n = 92"
    using False quote_char_plain [of c] by fastforce
  have d: "d \<in> {CHR 0x5C, CHR 0x22, CHR ''b'', CHR ''f'', CHR ''n'', CHR ''r'', CHR ''t'', CHR ''u'',
      CHR ''0'', hex_char (?n div 16), hex_char (?n mod 16)}"
    using assms(2) n unfolding quote_char_def Let_def by (auto split: if_splits)
  have h: "lower_char (hex_char (?n div 16)) = hex_char (?n div 16)"
    "lower_char (hex_char (?n mod 16)) = hex_char (?n mod 16)"
    by (rule lower_hex_char, simp add: less_mult_imp_div_less)+
  have k: "lower_char e = e"
    if "e \<in> {CHR 0x5C, CHR 0x22, CHR ''b'', CHR ''f'', CHR ''n'', CHR ''r'', CHR ''t'', CHR ''u'', CHR ''0''}"
    for e
    using that by (auto simp: lower_char_def)
  from d h k show ?thesis by auto
qed

lemma lower_quote_char: "toLowerCase (quote_char c) = quote_char (lower_char c)"
proof (cases "65 \<le> (of_char c :: nat) \<and> (of_char c :: nat) \<le> 90")
  case True
  then have a: "quote_char c = [c]" by (intro quote_char_plain) simp_all
  have l: "lower_char c = char_of ((of_char c :: nat) + 32)"
    using True by (simp add: lower_char_def Let_def)
  have "(of_char (lower_char c) :: nat) = of_char c + 32"
    using True by (simp add: l)
  then have "quote_char (lower_char c) = [lower_char c]"
    using True by (intro quote_char_plain) simp_all
  with a show ?thesis by (simp add: toLowerCase_def)
next
  case False
  then have "map lower_char (quote_char c) = quote_char c"
    by (intro map_idI quote_char_escape)
  with False show ?thesis by (simp add: toLowerCase_def lower_char_other)
qed

lemma lower_QuoteJSONString: "toLowerCase (QuoteJSONString k) = QuoteJSONString (toLowerCase k)"
proof -
  have "toLowerCase (concat (map quote_char k)) = concat (map quote_char (toLowerCase k))"
    using lower_quote_char by (induction k) (simp_all add: toLowerCase_def)
  then show ?thesis
    by (simp add: QuoteJSONString_def toLowerCase_def lower_char_def)
qed

lemma quoted_key_includes:
  assumes "tok \<in> set SUCCESS_INDICATORS" and "str_includes (toLowerCase k) tok"
  shows "sublist tok (toLowerCase (QuoteJSONString k))"
proof -
  from assms(2) obtain ps ss where "toLowerCase k = ps @ tok @ ss"
    by (auto simp: str_includes_def sublist_def)
  then have "QuoteJSONString (toLowerCase k)
      = ([CHR 0x22] @ concat (map quote_char ps)) @ tok @ (concat (map quote_char ss) @ [CHR 0x22])"
    by (simp add: QuoteJSONString_def indicator_plain [OF assms(1)])
  then show ?thesis unfolding lower_QuoteJSONString sublist_def by blast
qed

lemma stringify_undefined: "JSON_stringify v = Inr None \<longleftrightarrow> v = JUndefined"
  by (cases v) (simp_all split: sum.splits)

lemma all_or_error_Inr: "all_or_error rs = Inr xs \<Longrightarrow> rs = map Inr xs"
  by (induction rs arbitrary: xs rule: all_or_error.induct) (auto split: sum.splits)

lemma property_serialized:
  assumes "(k, v) \<in> set kvs" and "v \<noteq> JUndefined" and "\<not> isl (JSON_stringify (JObject kvs))"
  shows "\<exists>str. JSON_stringify (JObject kvs) = Inr (Some str) \<and> sublist (QuoteJSONString k) str"
proof -
  let ?f = "\<lambda>kv. case JSON_stringify (snd kv) of
                      Inl e \<Rightarrow> Inl e
                    | Inr None \<Rightarrow> Inr []
                    | Inr (Some t) \<Rightarrow> Inr [QuoteJSONString (fst kv) @ '':'' @ t]"
  from assms(3) obtain items where items: "all_or_error (map ?f kvs) = Inr items"
    by (cases "all_or_error (map ?f kvs)") simp_all
  then have m: "map ?f kvs = map Inr items" by (rule all_or_error_Inr)
  have "?f (k, v) \<in> set (map ?f kvs)" using assms(1) unfolding set_map by (rule imageI)
  with m obtain it where it: "?f (k, v) = Inr it" "it \<in> set items" by auto
  from it(1) assms(2) obtain t where t: "it = [QuoteJSONString k @ '':'' @ t]"
    using stringify_undefined [of v] by (auto split: sum.splits option.splits)
  with it(2) have "QuoteJSONString k @ '':'' @ t \<in> set (concat items)" by force
  then have "sublist (QuoteJSONString k @ '':'' @ t) (join '','' (concat items))"
    by (rule sublist_join)
  then obtain ps ss where "join '','' (concat items) = ps @ (QuoteJSONString k @ '':'' @ t) @ ss"
    by (auto simp: sublist_def)
  then have "''{'' @ join '','' (concat items) @ ''}''
      = (''{'' @ ps) @ QuoteJSONString k @ ('':'' @ t @ ss @ ''}'')"
    by simp
  then have "sublist (QuoteJSONString k) (''{'' @ join '','' (concat items) @ ''}'')"
    unfolding sublist_def by blast
  with items show ?thesis by simp
qed

lemma serialized_key_found:
  assumes "(k, v) \<in> set kvs" and "v \<noteq> JUndefined"
    and "tok \<in> set SUCCESS_INDICATORS" and "str_includes (toLowerCase k) tok"
    and "\<not> isl (JSON_stringify (JObject kvs))"
  shows "isSuccessMessage (JObject kvs) = Inr True"
proof -
  from property_serialized [OF assms(1,2,5)] obtain str
    where str: "JSON_stringify (JObject kvs) = Inr (Some str)" "sublist (QuoteJSONString k) str"
    by blast
  have "sublist (toLowerCase (QuoteJSONString k)) (toLowerCase str)"
    unfolding toLowerCase_def using str(2) by (rule map_mono_sublist)
  with quoted_key_includes [OF assms(3,4)] have "sublist tok (toLowerCase str)"
    by (rule sublist_order.order_trans)
  with assms(3) have "list_ex (\<lambda>indicator. str_includes (toLowerCase str) indicator) SUCCESS_INDICATORS"
    unfolding list_ex_iff str_includes_def by blast
  with str(1) show ?thesis
    by (simp add: isSuccessMessage_def)
qed

lemma falsy_payload:
  assumes "\<not> truthy data" and "\<not> isl (JSON_stringify data)"
  shows "containsSuccessIndicator (projr (JSON_stringify data)) = False"
proof -
  from assms have "data \<in> {JUndefined, JNull, JBool False, JNumber 0, JString []}"
    by (cases data) auto
  moreover have "containsSuccessIndicator (projr (JSON_stringify JUndefined)) = False"
    "containsSuccessIndicator (projr (JSON_stringify JNull)) = False"
    "containsSuccessIndicator (projr (JSON_stringify (JBool False))) = False"
    "containsSuccessIndicator (projr (JSON_stringify (JNumber 0))) = False"
    "containsSuccessIndicator (projr (JSON_stringify (JString []))) = False"
    by code_simp+
  ultimately show ?thesis by auto
qed

text \<open>
  Claim C5 as it is written fails: only \<open>success === true\<close> is tested before the
  serialization, so an object with the truthy field \<open>success: 1\<close> and a BigInt in another
  field reaches \<open>JSON.stringify\<close>, which throws; no answer is returned.
\<close>

theorem truthy_success_with_bigint_throws:
  "truthy (get_prop (JObject [(''success'', JNumber 1), (''n'', JBigInt 10)]) ''success'')
   \<and> isSuccessMessage (JObject [(''success'', JNumber 1), (''n'', JBigInt 10)]) = Inl TypeError"
  by code_simp

text \<open>
  Two more payloads that the serialization decides: a named property of an array is not
  written, so a truthy \<open>success\<close> on an array does not count; and a cyclic payload makes
  the classifier throw.
\<close>

lemma truthy_success_on_array_not_serialized:
  "isSuccessMessage (JArray [JNumber 1] [(''success'', JNumber 1)]) = Inr False"
  by code_simp

lemma cyclic_payload_throws:
  "isSuccessMessage (JObject [(''success'', JBool False), (''self'', JCyclicRef)]) = Inl TypeError"
  by code_simp

text \<open>
  Claim C5, as the code has it. An object, an array included, whose \<open>success\<close> is \<open>true\<close>,
  or whose \<open>status\<close> is \<open>"success"\<close>, or whose \<open>type\<close> is \<open>"bookingComplete"\<close>, is
  classified as a success whatever else it holds. An object that is no array and whose
  \<open>success\<close> is truthy is a success too whenever \<open>JSON.stringify\<close> accepts the payload:
  the serialized text contains the name of the property. Every other payload that
  \<open>JSON.stringify\<close> accepts gets the answer of the vocabulary test on its serialization.
\<close>

theorem isSuccessMessage_shortcuts:
  "(typeof data = ''object''
      \<and> (get_prop data ''success'' = JBool True
           \<or> get_prop data ''status'' = JString ''success''
           \<or> get_prop data ''type'' = JString ''bookingComplete'')
     \<longrightarrow> isSuccessMessage data = Inr True)
   \<and> (truthy (get_prop (JObject kvs) ''success'') \<and> \<not> isl (JSON_stringify (JObject kvs))
     \<longrightarrow> isSuccessMessage (JObject kvs) = Inr True)
   \<and> (\<not> (typeof d = ''object''
           \<and> (get_prop d ''success'' = JBool True
                \<or> get_prop d ''status'' = JString ''success''
                \<or> get_prop d ''type'' = JString ''bookingComplete''))
        \<and> \<not> isl (JSON_stringify d)
     \<longrightarrow> isSuccessMessage d = Inr (containsSuccessIndicator (projr (JSON_stringify d))))"
proof (intro conjI impI)
  assume a: "typeof data = ''object''
      \<and> (get_prop data ''success'' = JBool True
           \<or> get_prop data ''status'' = JString ''success''
           \<or> get_prop data ''type'' = JString ''bookingComplete'')"
  then have "truthy data" by (cases data) auto
  with a show "isSuccessMessage data = Inr True" by (auto simp: isSuccessMessage_def)
next
  assume a: "truthy (get_prop (JObject kvs) ''success'') \<and> \<not> isl (JSON_stringify (JObject kvs))"
  then obtain v where v: "map_of kvs ''success'' = Some v" "v \<noteq> JUndefined"
    by (cases "map_of kvs ''success''") force+
  then have "(''success'', v) \<in> set kvs" by (simp add: map_of_SomeD)
  moreover have "''success'' \<in> set SUCCESS_INDICATORS" by (simp add: SUCCESS_INDICATORS_def)
  moreover from this have "str_includes (toLowerCase ''success'') ''success''"
    by (simp only: indicator_lower str_includes_def sublist_order.order_refl)
  ultimately show "isSuccessMessage (JObject kvs) = Inr True"
    using v(2) a by (intro serialized_key_found) simp_all
next
  assume n: "\<not> (typeof d = ''object''
           \<and> (get_prop d ''success'' = JBool True
                \<or> get_prop d ''status'' = JString ''success''
                \<or> get_prop d ''type'' = JString ''bookingComplete''))
        \<and> \<not> isl (JSON_stringify d)"
  show "isSuccessMessage d = Inr (containsSuccessIndicator (projr (JSON_stringify d)))"
  proof (cases "truthy d")
    case False
    with n show ?thesis by (simp add: isSuccessMessage_def falsy_payload)
  next
    case True
    then have "d \<noteq> JUndefined" by auto
    with n obtain str where str: "JSON_stringify d = Inr (Some str)"
      using stringify_undefined [of d] by (cases "JSON_stringify d") auto
    from n have "\<not> (typeof d = ''object'' \<and> get_prop d ''success'' = JBool True)"
      "\<not> (typeof d = ''object'' \<and> get_prop d ''status'' = JString ''success'')"
      "\<not> (typeof d = ''object'' \<and> get_prop d ''type'' = JString ''bookingComplete'')"
      by auto
    with True str show ?thesis
      by (auto simp: isSuccessMessage_def containsSuccessIndicator_Some)
  qed
qed

theorem isSuccessMessage_shortcuts_witness:
  "typeof (JArray [] [(''status'', JString ''success''), (''n'', JBigInt 10)]) = ''object''
   \<and> get_prop (JArray [] [(''status'', JString ''success''), (''n'', JBigInt 10)]) ''status''
       = JString ''success''
   \<and> isSuccessMessage (JArray [] [(''status'', JString ''success''), (''n'', JBigInt 10)]) = Inr True
   \<and> truthy (get_prop (JObject [(''success'', JNumber 1), (''error'', JString ''declined'')]) ''success'')
   \<and> \<not> isl (JSON_stringify (JObject [(''success'', JNumber 1), (''error'', JString ''declined'')]))
   \<and> isSuccessMessage (JObject [(''success'', JNumber 1), (''error'', JString ''declined'')]) = Inr True
   \<and> \<not> (typeof (JString ''pending'') = ''object'')
   \<and> \<not> isl (JSON_stringify (JString ''pending''))
   \<and> isSuccessMessage (JString ''pending'')
       = Inr (containsSuccessIndicator (projr (JSON_stringify (JString ''pending''))))"
proof -
  have h: "typeof (JArray [] [(''status'', JString ''success''), (''n'', JBigInt 10)]) = ''object''"
    "get_prop (JArray [] [(''status'', JString ''success''), (''n'', JBigInt 10)]) ''status''
       = JString ''success''"
    "truthy (get_prop (JObject [(''success'', JNumber 1), (''error'', JString ''declined'')]) ''success'')"
    "\<not> isl (JSON_stringify (JObject [(''success'', JNumber 1), (''error'', JString ''declined'')]))"
    "\<not> (typeof (JString ''pending'') = ''object'')"
    "\<not> isl (JSON_stringify (JString ''pending''))"
    by code_simp+
  from isSuccessMessage_shortcuts
    [of "JArray [] [(''status'', JString ''success''), (''n'', JBigInt 10)]"
        "[(''success'', JNumber 1), (''error'', JString ''declined'')]" "JString ''pending''"] h
  show ?thesis by blast
qed

text \<open>
  Claim C10, as the code has it. \<open>JSON.stringify\<close> writes the name of a property of an
  object that is no array, and only when its value is not \<open>undefined\<close>. So such an object
  that \<open>JSON.stringify\<close> accepts (no BigInt and no cyclic reference in it), with a
  property whose value is not \<open>undefined\<close> and whose name contains a token of the
  vocabulary, the case of the letters ignored, is classified as a success, whatever the
  value: \<open>{success: false}\<close> is.
\<close>

theorem key_token_classifies_success:
  assumes "(k, v) \<in> set kvs" and "v \<noteq> JUndefined"
    and "tok \<in> set SUCCESS_INDICATORS" and "str_includes (toLowerCase k) tok"
    and "\<not> isl (JSON_stringify (JObject kvs))"
  shows "isSuccessMessage (JObject kvs) = Inr True"
  using assms by (rule serialized_key_found)

theorem key_token_classifies_success_witness:
  "(''success'', JBool False) \<in> set [(''success'', JBool False)] \<and> JBool False \<noteq> JUndefined
   \<and> ''success'' \<in> set SUCCESS_INDICATORS \<and> str_includes (toLowerCase ''success'') ''success''
   \<and> \<not> isl (JSON_stringify (JObject [(''success'', JBool False)]))
   \<and> isSuccessMessage (JObject [(''success'', JBool False)]) = Inr True"
proof -
  have h: "(''success'', JBool False) \<in> set [(''success'', JBool False)]" "JBool False \<noteq> JUndefined"
    "''success'' \<in> set SUCCESS_INDICATORS"
    by (simp_all add: SUCCESS_INDICATORS_def)
  have i: "str_includes (toLowerCase ''success'') ''success''"
    by (simp only: indicator_lower [OF h(3)] str_includes_def sublist_order.order_refl)
  have j: "\<not> isl (JSON_stringify (JObject [(''success'', JBool False)]))"
    by code_simp
  from key_token_classifies_success [OF h i j] h i j show ?thesis by blast
qed

text \<open>
  Claim C10 as it is written fails for a property that is present with the value
  \<open>undefined\<close>: it is not serialized, and nothing else in the payload matches.
\<close>

theorem undefined_success_property_not_serialized:
  "isSuccessMessage (JObject [(''success'', JUndefined)]) = Inr False"
  by code_simp

section \<open>The detectors\<close>

subsection \<open>The message listener\<close>

text \<open>
  Claim C7. A message whose origin does not contain \<open>appointmentcore.com\<close> leaves the
  whole page as it was, console included: with or without the listener registered, and
  whatever the data are, so that two such messages that differ in their data only have
  the same outcome.
\<close>

theorem untrusted_origin_ignored:
  assumes "\<not> str_includes origin ''appointmentcore.com''"
  shows "onMessage origin data s = s
         \<and> deliver (Message origin data) s = s
         \<and> deliver (Message origin data) s = deliver (Message origin data') s"
  using assms by (simp add: onMessage_def)

theorem untrusted_origin_ignored_witness:
  "\<not> str_includes ''https://evil.example'' ''appointmentcore.com''
   \<and> deliver (Message ''https://evil.example'' (JObject [(''success'', JBool True)]))
        (loaded_page [''booking-iframe''])
       = loaded_page [''booking-iframe'']"
proof -
  have h: "\<not> str_includes ''https://evil.example'' ''appointmentcore.com''"
    by code_simp
  from untrusted_origin_ignored [OF h] h show ?thesis by blast
qed

subsection \<open>The mutation observer\<close>

text \<open>
  Once a batch has held a matching element, the observer is disconnected, and a later
  batch is not delivered.
\<close>

lemma onAddedNode_keeps_disconnected:
  "MutationObserver \<notin> set (listeners s) \<Longrightarrow> MutationObserver \<notin> set (listeners (onAddedNode n s))"
  by (simp add: onAddedNode_def Let_def triggerRedirect_listeners console_log_def)

lemma onAddedNode_disconnects:
  "node_matches n \<Longrightarrow> MutationObserver \<notin> set (listeners (onAddedNode n s))"
  by (simp add: node_matches_def onAddedNode_def Let_def triggerRedirect_listeners console_log_def)

lemma onAddedNodes_keep_disconnected:
  "MutationObserver \<notin> set (listeners s) \<Longrightarrow>
   MutationObserver \<notin> set (listeners (foldl (\<lambda>s2 n. onAddedNode n s2) s ns))"
  by (rule onAddedNodes_preserves [of "\<lambda>t. MutationObserver \<notin> set (listeners t)"])
     (simp_all add: onAddedNode_keeps_disconnected)

lemma onAddedNodes_disconnect:
  assumes "n \<in> set ns" and "node_matches n"
  shows "MutationObserver \<notin> set (listeners (foldl (\<lambda>s2 n. onAddedNode n s2) s ns))"
proof -
  from assms(1) obtain ns1 ns2 where "ns = ns1 @ n # ns2" by (auto simp: in_set_conv_decomp)
  then show ?thesis
    by (simp add: onAddedNodes_keep_disconnected onAddedNode_disconnects [OF assms(2)])
qed

lemma onMutations_keep_disconnected:
  "MutationObserver \<notin> set (listeners s) \<Longrightarrow> MutationObserver \<notin> set (listeners (onMutations ms s))"
  unfolding onMutations_def
  by (induction ms arbitrary: s) (simp_all add: onAddedNodes_keep_disconnected)

lemma mutation_observer_stops_after_match:
  assumes "m \<in> set ms" and "n \<in> set (addedNodes m)" and "node_matches n"
  shows "deliver (MutationBatch later) (onMutations ms s) = onMutations ms s"
proof -
  from assms(1) obtain ms1 ms2 where ms: "ms = ms1 @ m # ms2" by (auto simp: in_set_conv_decomp)
  have "onMutations ms s
      = onMutations ms2 (foldl (\<lambda>s2 n. onAddedNode n s2) (onMutations ms1 s) (addedNodes m))"
    by (simp add: ms onMutations_def)
  then have "MutationObserver \<notin> set (listeners (onMutations ms s))"
    by (simp add: onMutations_keep_disconnected onAddedNodes_disconnect [OF assms(2,3)])
  then show ?thesis by simp
qed

text \<open>
  Claim C8, on one batch of two records that each add a matching element: \<open>forEach\<close>
  goes on after \<open>observer.disconnect()\<close>, so the dispatcher is called for both, two
  attempts are counted and two navigations are scheduled. The claim asks for exactly
  one call.
\<close>

theorem mutation_batch_two_matches:
  "redirectAttempts (CONFIG (deliver
      (MutationBatch
         [\<lparr>addedNodes = [\<lparr>nodeType = 1, textContent = Some ''Thank you'', innerText = Some ''Thank you''\<rparr>]\<rparr>,
          \<lparr>addedNodes = [\<lparr>nodeType = 1, textContent = Some ''Booked'', innerText = Some ''Booked''\<rparr>]\<rparr>])
      (loaded_page [''booking-iframe'']))) = 2
   \<and> timeouts (deliver
      (MutationBatch
         [\<lparr>addedNodes = [\<lparr>nodeType = 1, textContent = Some ''Thank you'', innerText = Some ''Thank you''\<rparr>]\<rparr>,
          \<lparr>addedNodes = [\<lparr>nodeType = 1, textContent = Some ''Booked'', innerText = Some ''Booked''\<rparr>]\<rparr>])
      (loaded_page [''booking-iframe''])) = [1500, 1500]"
  by code_simp

subsection \<open>The URL monitor\<close>

text \<open>
  Claim C9. A tick on which the address cannot be read changes nothing, and so does any
  number of them. A tick that reads an address \<open>u\<close> which differs from the last one seen
  and is a success address clears the interval, so that no later tick is delivered, and
  calls the dispatcher with \<open>urlMonitoring\<close>; a tick that reads an address \<open>v\<close> which is
  the last one seen, or is no success address, does neither: it leaves the page as it
  is, or records and logs the new address.
\<close>

theorem url_poller_tick:
  "urlCheckerTick None s = s
   \<and> run (replicate n (IntervalTick None)) s = s
   \<and> (u \<noteq> lastUrl s \<and> isSuccessUrl (Some u) \<longrightarrow>
        urlCheckerTick (Some u) s
          = triggerRedirect ''urlMonitoring''
              ((console_log [Str ''Success detected via URL monitoring'']
                 (console_log [Str ''URL changed:'', Str u] (s\<lparr>lastUrl := u\<rparr>)))
               \<lparr>listeners := removeAll UrlChecker (listeners s)\<rparr>)
        \<and> UrlChecker \<notin> set (listeners (urlCheckerTick (Some u) s))
        \<and> deliver (IntervalTick href) (urlCheckerTick (Some u) s) = urlCheckerTick (Some u) s)
   \<and> (\<not> (v \<noteq> lastUrl s \<and> isSuccessUrl (Some v)) \<longrightarrow>
        urlCheckerTick (Some v) s
          = (if v = lastUrl s then s
             else console_log [Str ''URL changed:'', Str v] (s\<lparr>lastUrl := v\<rparr>)))"
proof -
  have a: "urlCheckerTick None s = s" by (simp add: urlCheckerTick_def)
  have b: "run (replicate n (IntervalTick None)) s = s"
    by (induction n) (simp_all add: run_def urlCheckerTick_def)
  have c: "urlCheckerTick (Some u) s
          = triggerRedirect ''urlMonitoring''
              ((console_log [Str ''Success detected via URL monitoring'']
                 (console_log [Str ''URL changed:'', Str u] (s\<lparr>lastUrl := u\<rparr>)))
               \<lparr>listeners := removeAll UrlChecker (listeners s)\<rparr>)"
    if "u \<noteq> lastUrl s" "isSuccessUrl (Some u)"
    using that by (simp add: urlCheckerTick_def Let_def console_log_def)
  have d: "UrlChecker \<notin> set (listeners (urlCheckerTick (Some u) s))"
    if "u \<noteq> lastUrl s" "isSuccessUrl (Some u)"
    by (simp add: c [OF that] triggerRedirect_listeners)
  have e: "urlCheckerTick (Some v) s
          = (if v = lastUrl s then s
             else console_log [Str ''URL changed:'', Str v] (s\<lparr>lastUrl := v\<rparr>))"
    if "\<not> (v \<noteq> lastUrl s \<and> isSuccessUrl (Some v))"
    using that by (auto simp: urlCheckerTick_def Let_def)
  from a b c d e show ?thesis by simp
qed

theorem url_poller_tick_witness:
  "''https://go.appointmentcore.com/book/success'' \<noteq> lastUrl (loaded_page [''booking-iframe''])
   \<and> isSuccessUrl (Some ''https://go.appointmentcore.com/book/success'')
   \<and> UrlChecker \<notin> set (listeners (urlCheckerTick (Some ''https://go.appointmentcore.com/book/success'')
        (loaded_page [''booking-iframe''])))
   \<and> \<not> (''https://go.appointmentcore.com/book'' \<noteq> lastUrl (loaded_page [''booking-iframe''])
          \<and> isSuccessUrl (Some ''https://go.appointmentcore.com/book''))
   \<and> urlCheckerTick (Some ''https://go.appointmentcore.com/book'') (loaded_page [''booking-iframe''])
       = console_log [Str ''URL changed:'', Str ''https://go.appointmentcore.com/book'']
           ((loaded_page [''booking-iframe''])\<lparr>lastUrl := ''https://go.appointmentcore.com/book''\<rparr>)"
proof -
  have h: "''https://go.appointmentcore.com/book/success'' \<noteq> lastUrl (loaded_page [''booking-iframe''])"
    "''https://go.appointmentcore.com/book'' \<noteq> lastUrl (loaded_page [''booking-iframe''])"
    "isSuccessUrl (Some ''https://go.appointmentcore.com/book/success'')"
    "\<not> isSuccessUrl (Some ''https://go.appointmentcore.com/book'')"
    by code_simp+
  note t = url_poller_tick [of "loaded_page [''booking-iframe'']" 0
      "''https://go.appointmentcore.com/book/success''" None
      "''https://go.appointmentcore.com/book''"]
  from t h(1,3) have p: "UrlChecker \<notin> set (listeners
      (urlCheckerTick (Some ''https://go.appointmentcore.com/book/success'')
        (loaded_page [''booking-iframe''])))"
    by blast
  from t h(4) have "urlCheckerTick (Some ''https://go.appointmentcore.com/book'')
      (loaded_page [''booking-iframe''])
    = (if ''https://go.appointmentcore.com/book'' = lastUrl (loaded_page [''booking-iframe''])
       then loaded_page [''booking-iframe'']
       else console_log [Str ''URL changed:'', Str ''https://go.appointmentcore.com/book'']
           ((loaded_page [''booking-iframe''])\<lparr>lastUrl := ''https://go.appointmentcore.com/book''\<rparr>))"
    by blast
  then have q: "urlCheckerTick (Some ''https://go.appointmentcore.com/book'')
      (loaded_page [''booking-iframe''])
    = console_log [Str ''URL changed:'', Str ''https://go.appointmentcore.com/book'']
           ((loaded_page [''booking-iframe''])\<lparr>lastUrl := ''https://go.appointmentcore.com/book''\<rparr>)"
    by (simp only: h(2) if_False)
  from h p q show ?thesis by blast
qed

section \<open>Initialization\<close>

text \<open>
  Claim C4 as it is written fails: on a document without the frame, \<open>init\<close> returns
  before any detector is set up, also those that do not need the frame.
\<close>

theorem init_without_iframe_starts_nothing:
  "map_sum id listeners (init (fresh_page [''loadingOverlay''])) = Inr []"
  by code_simp

text \<open>
  Claim C4, as the code has it. \<open>init\<close> never throws. Without the element
  \<open>booking-iframe\<close> it prints \<open>Booking iframe not found\<close> as an error and registers
  nothing; with it, the five detectors are set up in order, whether or not the overlay
  element exists.
\<close>

theorem init_outcome:
  "(''booking-iframe'' \<notin> set (document s) \<longrightarrow>
      init s = Inr (console_error [Str ''Booking iframe not found'']
                 (s\<lparr>CONFIG := (CONFIG s)\<lparr>iframe := None,
                      loadingOverlay := getElementById s ''loadingOverlay''\<rparr>\<rparr>)))
   \<and> (''booking-iframe'' \<in> set (document s') \<longrightarrow>
        (\<exists>t. init s' = Inr t
           \<and> listeners t = listeners s' @ [MessageListener, UrlChecker, MutationObserver,
                 IframeLoadListener] @ map CustomEventListener eventNames
           \<and> loadingOverlay (CONFIG t) = getElementById s' ''loadingOverlay''))"
  by (simp add: init_def Let_def getElementById_def and_then_def setupPostMessageListener_def
      setupUrlMonitoring_def setupMutationObserver_def setupNavigationWatcher_def
      setupCustomEventListener_def console_log_def console_error_def)

theorem init_outcome_witness:
  "''booking-iframe'' \<notin> set (document (fresh_page [''loadingOverlay'']))
   \<and> init (fresh_page [''loadingOverlay''])
       = Inr (console_error [Str ''Booking iframe not found'']
            ((fresh_page [''loadingOverlay''])\<lparr>CONFIG := (CONFIG (fresh_page [''loadingOverlay'']))
                \<lparr>iframe := None,
                 loadingOverlay := getElementById (fresh_page [''loadingOverlay'']) ''loadingOverlay''\<rparr>\<rparr>))
   \<and> ''booking-iframe'' \<in> set (document (fresh_page [''booking-iframe'']))
   \<and> (\<exists>t. init (fresh_page [''booking-iframe'']) = Inr t
          \<and> listeners t = [MessageListener, UrlChecker, MutationObserver, IframeLoadListener]
               @ map CustomEventListener eventNames)"
proof -
  have h: "''booking-iframe'' \<notin> set (document (fresh_page [''loadingOverlay'']))"
    "''booking-iframe'' \<in> set (document (fresh_page [''booking-iframe'']))"
    "listeners (fresh_page [''booking-iframe'']) = []"
    by (simp_all add: fresh_page_def)
  from init_outcome [of "fresh_page [''loadingOverlay'']" "fresh_page [''booking-iframe'']"] h
  show ?thesis by auto
qed

end
